theory Spec2Isabelle
  imports Main "HOL-Library.Multiset" "HOL-Library.Char_ord" "HOL-Library.List_Lexorder"
begin

section \<open>Regular expressions of the pattern lists\<close>

text \<open>
  The crawler calls \<^verbatim>\<open>re.search(pattern, url)\<close> with the patterns of its built-in lists
  and with the patterns of the domain configuration. The built-in patterns are
  made of literal characters, an optional character (\<^verbatim>\<open>[s]?\<close>) and the end anchor
  (\<^verbatim>\<open>$\<close>); a pattern is modelled as a list of such items. Python's \<^verbatim>\<open>$\<close> matches at
  the end of the string and before a newline that ends the string.
\<close>

datatype rx = Lit char | Opt char | Eol

type_synonym pattern = "rx list"

fun match_here :: "pattern \<Rightarrow> string \<Rightarrow> bool" where
  "match_here [] s = True"
| "match_here (Lit c # p) s = (case s of [] \<Rightarrow> False | x # t \<Rightarrow> x = c \<and> match_here p t)"
| "match_here (Opt c # p) s =
     ((case s of [] \<Rightarrow> False | x # t \<Rightarrow> x = c \<and> match_here p t) \<or> match_here p s)"
| "match_here (Eol # p) s = ((s = [] \<or> s = [CHR 0x0A]) \<and> match_here p s)"

fun re_search :: "pattern \<Rightarrow> string \<Rightarrow> bool" where
  "re_search p [] = match_here p []"
| "re_search p (c # s) = (match_here p (c # s) \<or> re_search p s)"

definition lits :: "string \<Rightarrow> pattern" where
  "lits s = map Lit s"

text \<open>The loop \<^verbatim>\<open>for pattern in patterns: if re.search(pattern, url): return True\<close>
  followed by \<^verbatim>\<open>return False\<close>.\<close>

fun any_match :: "pattern list \<Rightarrow> string \<Rightarrow> bool" where
  "any_match [] url = False"
| "any_match (p # ps) url = (if re_search p url then True else any_match ps url)"

definition default_patterns :: "pattern list" where
  "default_patterns =
    [ lits ''/product'' @ [Opt CHR ''s''] @ lits ''/'',
      lits ''/p/'',
      lits ''/item'' @ [Opt CHR ''s''] @ lits ''/'',
      lits ''/pd/'',
      lits ''/shop/product'' @ [Opt CHR ''s''],
      lits ''/good'' @ [Opt CHR ''s''] @ lits ''/'' ]"

definition exclude_patterns :: "pattern list" where
  "exclude_patterns =
    [ lits ''/login'', lits ''/register'', lits ''/cart'', lits ''/checkout'',
      lits ''/wishlist'', lits ''/account'', lits ''/blog'', lits ''/article'',
      lits ''/search'', lits ''/contact'', lits ''/about'', lits ''/faq'',
      lits ''/help'', lits ''/support'', lits ''/privacy'', lits ''/terms'',
      lits ''/policy'', lits ''/sitemap'',
      lits ''.xml'' @ [Eol], lits ''.pdf'' @ [Eol], lits ''.jpg'' @ [Eol],
      lits ''.png'' @ [Eol], lits ''.gif'' @ [Eol] ]"

subsection \<open>Product classification\<close>

text \<open>\<^verbatim>\<open>is_product_url(url, patterns=None)\<close> of the URL helpers:
  \<^verbatim>\<open>patterns = patterns or default_patterns\<close> takes the built-in list when the
  argument is \<^verbatim>\<open>None\<close> or the empty list.\<close>

definition is_product_url :: "string \<Rightarrow> pattern list option \<Rightarrow> bool" where
  "is_product_url url patterns =
     (let patterns' = (case patterns of None \<Rightarrow> default_patterns
                        | Some ps \<Rightarrow> if ps = [] then default_patterns else ps)
      in any_match patterns' url)"

text \<open>\<^verbatim>\<open>SimpleEcommerceCrawler.is_product\<close>: the domain-specific patterns, then
  \<^verbatim>\<open>is_product_url(url)\<close> with no pattern argument.\<close>

definition is_product :: "pattern list \<Rightarrow> string \<Rightarrow> bool" where
  "is_product product_patterns url =
     (if any_match product_patterns url then True else is_product_url url None)"

text \<open>\<^verbatim>\<open>EcommerceSpider.is_product_url\<close> over
  \<^verbatim>\<open>all_patterns = common_product_patterns + site_specific_patterns\<close>.\<close>

definition spider_is_product_url :: "pattern list \<Rightarrow> string \<Rightarrow> bool" where
  "spider_is_product_url site_specific_patterns url =
     any_match (default_patterns @ site_specific_patterns) url"

text \<open>\<^verbatim>\<open>SimpleEcommerceCrawler.is_excluded\<close>.\<close>

definition is_excluded :: "string \<Rightarrow> bool" where
  "is_excluded url = any_match exclude_patterns url"

section \<open>URL helpers\<close>

subsection \<open>The standard library's URL parser\<close>

text \<open>
  The helpers call \<^verbatim>\<open>urllib.parse.urlparse\<close> and \<^verbatim>\<open>ParseResult.geturl\<close>. Both are
  modelled after CPython 3.11.10 on byte strings: the removal of leading control
  characters and spaces and of tab, carriage return and line feed, the scheme,
  the network location, the fragment, the query, the parameters of the last
  path segment, and every \<^verbatim>\<open>ValueError\<close> of the parser (the result \<open>None\<close>): an
  unmatched square bracket, a bracketed host that is no IPv6 or IPvFuture
  literal, and a network location that is not ASCII and gains a delimiter
  under NFKC normalization. The parser asks two other libraries,
  \<^verbatim>\<open>ipaddress.ip_address\<close> and \<^verbatim>\<open>unicodedata.normalize\<close>; they are the
  parameters \<open>ip_address\<close> (\<open>None\<close> when it raises) and \<open>nfkc\<close> of the model.
\<close>

record ParseResult =
  scheme :: string
  netloc :: string
  path :: string
  params :: string
  query :: string
  fragment :: string

definition ascii_lowercase :: string where
  "ascii_lowercase = ''abcdefghijklmnopqrstuvwxyz''"

definition ascii_uppercase :: string where
  "ascii_uppercase = ''ABCDEFGHIJKLMNOPQRSTUVWXYZ''"

definition ascii_letters :: string where
  "ascii_letters = ascii_lowercase @ ascii_uppercase"

definition scheme_chars :: string where
  "scheme_chars = ascii_letters @ ''0123456789+-.''"

definition lower_char :: "char \<Rightarrow> char" where
  "lower_char c = (case map_of (zip ascii_uppercase ascii_lowercase) c of
                     None \<Rightarrow> c | Some l \<Rightarrow> l)"

definition uses_netloc :: "string list" where
  "uses_netloc = ['''', ''ftp'', ''http'', ''gopher'', ''nntp'', ''telnet'',
     ''imap'', ''wais'', ''file'', ''mms'', ''https'', ''shttp'', ''snews'',
     ''prospero'', ''rtsp'', ''rtsps'', ''rtspu'', ''rsync'', ''svn'', ''svn+ssh'',
     ''sftp'', ''nfs'', ''git'', ''git+ssh'', ''ws'', ''wss'', ''itms-services'']"

definition uses_params :: "string list" where
  "uses_params = ['''', ''ftp'', ''hdl'', ''prospero'', ''http'', ''imap'',
     ''https'', ''shttp'', ''rtsp'', ''rtsps'', ''rtspu'', ''sip'', ''sips'',
     ''mms'', ''sftp'', ''tel'']"

text \<open>\<^verbatim>\<open>s.split(c, 1)\<close> for a string that contains \<open>c\<close>.\<close>

definition split_first :: "char \<Rightarrow> string \<Rightarrow> string \<times> string" where
  "split_first c s = (takeWhile (\<lambda>x. x \<noteq> c) s, drop 1 (dropWhile (\<lambda>x. x \<noteq> c) s))"

text \<open>\<^verbatim>\<open>url.lstrip(_WHATWG_C0_CONTROL_OR_SPACE)\<close>, then the removal of the
  characters of \<^verbatim>\<open>_UNSAFE_URL_BYTES_TO_REMOVE\<close>.\<close>

definition sanitize :: "string \<Rightarrow> string" where
  "sanitize url =
     filter (\<lambda>c. c \<noteq> CHR 0x09 \<and> c \<noteq> CHR 0x0D \<and> c \<noteq> CHR 0x0A)
       (dropWhile (\<lambda>c. (of_char c :: nat) \<le> 32) url)"

definition split_scheme :: "string \<Rightarrow> string \<times> string" where
  "split_scheme url =
     (let pre = takeWhile (\<lambda>c. c \<noteq> CHR '':'') url
      in if CHR '':'' \<in> set url \<and> pre \<noteq> [] \<and> hd pre \<in> set ascii_letters
            \<and> list_all (\<lambda>c. c \<in> set scheme_chars) pre
         then (map lower_char pre, drop (length pre + 1) url)
         else ([], url))"

text \<open>\<^verbatim>\<open>_splitnetloc(url, 2)\<close>: the network location ends at the first of
  \<^verbatim>\<open>/ ? #\<close> after the two slashes.\<close>

definition is_delim :: "char \<Rightarrow> bool" where
  "is_delim c = (c = CHR ''/'' \<or> c = CHR ''?'' \<or> c = CHR ''#'')"

definition splitnetloc :: "string \<Rightarrow> string \<times> string" where
  "splitnetloc url =
     (takeWhile (\<lambda>c. \<not> is_delim c) (drop 2 url),
      dropWhile (\<lambda>c. \<not> is_delim c) (drop 2 url))"

definition bad_brackets :: "string \<Rightarrow> bool" where
  "bad_brackets nl =
     ((CHR ''['' \<in> set nl \<and> CHR '']'' \<notin> set nl) \<or>
      (CHR '']'' \<in> set nl \<and> CHR ''['' \<notin> set nl))"

datatype ip_version = IPv4 | IPv6

record stdlib =
  ip_address :: "string \<Rightarrow> ip_version option"
  nfkc :: "string \<Rightarrow> string"

definition hexdigits :: string where
  "hexdigits = ''0123456789abcdefABCDEF''"

text \<open>\<^verbatim>\<open>_check_bracketed_host\<close>, true when it raises: a host that starts with
  \<^verbatim>\<open>v\<close> must match \<^verbatim>\<open>\Av[a-fA-F0-9]+\..+\Z\<close>, any other host must be an IPv6
  address.\<close>

definition bracketed_host_raises :: "stdlib \<Rightarrow> string \<Rightarrow> bool" where
  "bracketed_host_raises L hostname =
     (if take 1 hostname = ''v'' then
        (let digits = takeWhile (\<lambda>c. c \<in> set hexdigits) (drop 1 hostname);
             after = dropWhile (\<lambda>c. c \<in> set hexdigits) (drop 1 hostname)
         in \<not> (digits \<noteq> [] \<and> take 1 after = ''.'' \<and> drop 1 after \<noteq> []
                \<and> CHR 0x0A \<notin> set (drop 1 after)))
      else (case ip_address L hostname of
              None \<Rightarrow> True
            | Some IPv4 \<Rightarrow> True
            | Some IPv6 \<Rightarrow> False))"

text \<open>\<^verbatim>\<open>_checknetloc\<close>, true when it raises.\<close>

definition checknetloc_raises :: "stdlib \<Rightarrow> string \<Rightarrow> bool" where
  "checknetloc_raises L nl =
     (if nl = [] \<or> list_all (\<lambda>c. (of_char c :: nat) < 128) nl then False
      else
        let n = filter (\<lambda>c. c \<notin> set ''@:#?'') nl;
            netloc2 = nfkc L n
        in if n = netloc2 then False
           else list_ex (\<lambda>c. c \<in> set netloc2) ''/?#@:'')"

text \<open>The three places where \<^verbatim>\<open>urlsplit\<close> raises for a network location. The
  bracketed host is \<^verbatim>\<open>netloc.partition('[')[2].partition(']')[0]\<close>.\<close>

definition netloc_raises :: "stdlib \<Rightarrow> string \<Rightarrow> bool" where
  "netloc_raises L nl =
     (if bad_brackets nl then True
      else if CHR ''['' \<in> set nl \<and> CHR '']'' \<in> set nl
              \<and> bracketed_host_raises L
                    (takeWhile (\<lambda>c. c \<noteq> CHR '']'')
                       (drop 1 (dropWhile (\<lambda>c. c \<noteq> CHR ''['') nl)))
      then True
      else checknetloc_raises L nl)"

definition urlsplit ::
  "stdlib \<Rightarrow> string \<Rightarrow> (string \<times> string \<times> string \<times> string \<times> string) option" where
  "urlsplit L url0 =
     (let (sch, url1) = split_scheme (sanitize url0);
          (nl, url2) = (if take 2 url1 = ''//'' then splitnetloc url1 else ([], url1))
      in if netloc_raises L nl then None
         else
           let (url3, frag) = (if CHR ''#'' \<in> set url2 then split_first CHR ''#'' url2
                               else (url2, []));
               (url4, qry) = (if CHR ''?'' \<in> set url3 then split_first CHR ''?'' url3
                              else (url3, []))
           in Some (sch, nl, url4, qry, frag))"

text \<open>\<^verbatim>\<open>_splitparams\<close>; \<^verbatim>\<open>find\<close> gives -1 when there is no semicolon, and the
  slices \<^verbatim>\<open>url[:-1]\<close>, \<^verbatim>\<open>url[0:]\<close> follow.\<close>

definition splitparams :: "string \<Rightarrow> string \<times> string" where
  "splitparams url =
     (if CHR ''/'' \<in> set url then
        (let k = length url - 1 - length (takeWhile (\<lambda>c. c \<noteq> CHR ''/'') (rev url));
             after = drop k url
         in if CHR '';'' \<in> set after
            then (let i = k + length (takeWhile (\<lambda>c. c \<noteq> CHR '';'') after)
                  in (take i url, drop (i + 1) url))
            else (url, []))
      else if CHR '';'' \<in> set url
           then (takeWhile (\<lambda>c. c \<noteq> CHR '';'') url,
                 drop 1 (dropWhile (\<lambda>c. c \<noteq> CHR '';'') url))
           else (butlast url, url))"

definition urlparse :: "stdlib \<Rightarrow> string \<Rightarrow> ParseResult option" where
  "urlparse L url =
     (case urlsplit L url of
        None \<Rightarrow> None
      | Some (sch, nl, url', qry, frag) \<Rightarrow>
          (let (p, ps) = (if sch \<in> set uses_params \<and> CHR '';'' \<in> set url'
                          then splitparams url' else (url', []))
           in Some \<lparr>scheme = sch, netloc = nl, path = p, params = ps,
                     query = qry, fragment = frag\<rparr>))"

definition urlunsplit :: "string \<Rightarrow> string \<Rightarrow> string \<Rightarrow> string \<Rightarrow> string \<Rightarrow> string" where
  "urlunsplit sch nl url qry frag =
     (let url1 = (if nl \<noteq> [] \<or> (sch \<noteq> [] \<and> sch \<in> set uses_netloc \<and> take 2 url \<noteq> ''//'')
                  then ''//'' @ nl @ (if url \<noteq> [] \<and> take 1 url \<noteq> ''/'' then ''/'' @ url else url)
                  else url);
          url2 = (if sch \<noteq> [] then sch @ '':'' @ url1 else url1);
          url3 = (if qry \<noteq> [] then url2 @ ''?'' @ qry else url2)
      in if frag \<noteq> [] then url3 @ ''#'' @ frag else url3)"

text \<open>\<^verbatim>\<open>geturl\<close> is \<^verbatim>\<open>urlunparse\<close> of the six components.\<close>

definition geturl :: "ParseResult \<Rightarrow> string" where
  "geturl r =
     urlunsplit (scheme r) (netloc r)
       (if params r \<noteq> [] then path r @ '';'' @ params r else path r)
       (query r) (fragment r)"

subsection \<open>The helpers of the repository\<close>

text \<open>\<^verbatim>\<open>is_valid_url\<close>: \<^verbatim>\<open>all([result.scheme, result.netloc])\<close>, and \<^verbatim>\<open>False\<close>
  when the parser raises.\<close>

definition is_valid_url :: "stdlib \<Rightarrow> string \<Rightarrow> bool" where
  "is_valid_url L url =
     (case urlparse L url of
        None \<Rightarrow> False
      | Some result \<Rightarrow> scheme result \<noteq> [] \<and> netloc result \<noteq> [])"

text \<open>\<^verbatim>\<open>normalize_url\<close>: the fragment is replaced by the empty string. The result
  is \<open>None\<close> when the parser raises, which the helper does not catch.\<close>

definition normalize_url :: "stdlib \<Rightarrow> string \<Rightarrow> string option" where
  "normalize_url L url =
     (case urlparse L url of
        None \<Rightarrow> None
      | Some parsed \<Rightarrow> Some (geturl (parsed\<lparr>fragment := []\<rparr>)))"

text \<open>
  \<^verbatim>\<open>re.sub(r'utm_[a-zA-Z]+=[^&]*&?', '', query)\<close>. \<open>match_utm s\<close> is the rest of
  \<open>s\<close> after a match that starts at its first character: \<^verbatim>\<open>utm_\<close>, the longest run
  of letters (at least one), \<^verbatim>\<open>=\<close>, everything up to the next \<^verbatim>\<open>&\<close>, and that
  \<^verbatim>\<open>&\<close> when there is one. The substitution scans from the left, deletes a
  match and goes on behind it.
\<close>

definition match_utm :: "string \<Rightarrow> string option" where
  "match_utm s =
     (if take 4 s = ''utm_'' then
        (let s1 = drop 4 s;
             s2 = dropWhile (\<lambda>c. c \<in> set ascii_letters) s1
         in if takeWhile (\<lambda>c. c \<in> set ascii_letters) s1 = [] then None
            else (case s2 of
                    [] \<Rightarrow> None
                  | c # s3 \<Rightarrow>
                      if c = CHR ''='' then
                        (let s4 = dropWhile (\<lambda>x. x \<noteq> CHR ''&'') s3
                         in Some (case s4 of [] \<Rightarrow> [] | x # s5 \<Rightarrow> s5))
                      else None))
      else None)"

function strip_utm :: "string \<Rightarrow> string" where
  "strip_utm [] = []"
| "strip_utm (c # cs) =
     (case match_utm (c # cs) of
        Some rest \<Rightarrow> strip_utm rest
      | None \<Rightarrow> c # strip_utm cs)"
  by pat_completeness auto
termination
proof (relation "measure length", goal_cases)
  case 1
  show ?case by simp
next
  case (2 c cs)
  show ?case by simp
next
  case (3 c cs rest)
  then obtain s3 where
    s3: "dropWhile (\<lambda>x. x \<in> set ascii_letters) (drop 4 (c # cs)) = CHR ''='' # s3" and
    r: "rest = (case dropWhile (\<lambda>x. x \<noteq> CHR ''&'') s3 of [] \<Rightarrow> [] | x # s5 \<Rightarrow> s5)"
    by (auto simp: match_utm_def Let_def split: if_splits list.splits)
  have "length rest \<le> length (dropWhile (\<lambda>x. x \<noteq> CHR ''&'') s3)"
    using r by (cases "dropWhile (\<lambda>x. x \<noteq> CHR ''&'') s3") auto
  also have "\<dots> \<le> length s3" by (rule length_dropWhile_le)
  also have "\<dots> < length (dropWhile (\<lambda>x. x \<in> set ascii_letters) (drop 4 (c # cs)))"
    using s3 by simp
  also have "\<dots> \<le> length (drop 4 (c # cs))" by (rule length_dropWhile_le)
  also have "\<dots> \<le> length (c # cs)" by simp
  finally show ?case by simp
qed

text \<open>\<^verbatim>\<open>clean_url\<close>: the query is replaced by the substituted query.\<close>

definition clean_url :: "stdlib \<Rightarrow> string \<Rightarrow> string option" where
  "clean_url L url =
     (case urlparse L url of
        None \<Rightarrow> None
      | Some parsed \<Rightarrow> Some (geturl (parsed\<lparr>query := strip_utm (query parsed)\<rparr>)))"

text \<open>The canonical form of a link, \<^verbatim>\<open>clean_url(normalize_url(url))\<close>, as the
  link extraction of both crawl drivers computes it.\<close>

definition canonicalize :: "stdlib \<Rightarrow> string \<Rightarrow> string option" where
  "canonicalize L url =
     (case normalize_url L url of None \<Rightarrow> None | Some n \<Rightarrow> clean_url L n)"

subsection \<open>Registrable domains\<close>

text \<open>\<^verbatim>\<open>tldextract.extract\<close> is a library backed by the public suffix list; it
  is a parameter \<open>ext\<close> of the helpers that call it, and its result is the
  record of the three parts of a host.\<close>

record ExtractResult =
  subdomain :: string
  domain :: string
  suffix :: string

definition get_domain :: "(string \<Rightarrow> ExtractResult) \<Rightarrow> string \<Rightarrow> string" where
  "get_domain ext url = domain (ext url) @ ''.'' @ suffix (ext url)"

definition is_same_domain :: "(string \<Rightarrow> ExtractResult) \<Rightarrow> string \<Rightarrow> string \<Rightarrow> bool" where
  "is_same_domain ext url1 url2 =
     (domain (ext url1) = domain (ext url2) \<and> suffix (ext url1) = suffix (ext url2))"

section \<open>The crawl of one domain\<close>

subsection \<open>External capabilities\<close>

text \<open>
  What the crawler reaches outside the program is a parameter of the model:
  \<open>requests_get\<close> is \<^verbatim>\<open>requests.get\<close> (status code and text, \<open>None\<close> when it raises),
  \<open>soup_hrefs\<close> gives the stripped \<^verbatim>\<open>href\<close> of every \<^verbatim>\<open>a\<close> tag of a document in
  document order (\<open>None\<close> when the parser raises), \<open>urljoin\<close> is
  \<^verbatim>\<open>urllib.parse.urljoin\<close> (\<open>None\<close> when it raises), \<open>tldextract\<close> is
  \<^verbatim>\<open>tldextract.extract\<close> and \<open>lib\<close> holds the two libraries behind the URL
  parser. \<open>set_order\<close> is the order in which the interpreter enumerates a set:
  it depends on the hash seed of the process and on the order in which the
  elements were added, so it maps the list of the elements in the order of
  their addition to the list that \<^verbatim>\<open>list(...)\<close> of the set gives.
\<close>

record world =
  requests_get :: "string \<Rightarrow> (int \<times> string) option"
  soup_hrefs :: "string \<Rightarrow> string list option"
  urljoin :: "string \<Rightarrow> string \<Rightarrow> string option"
  tldextract :: "string \<Rightarrow> ExtractResult"
  lib :: stdlib
  set_order :: "string list \<Rightarrow> string list"

text \<open>The attributes that \<^verbatim>\<open>__init__\<close> and \<^verbatim>\<open>_configure_for_domain\<close> fix for a crawl.\<close>

record config =
  start_urls :: "string list"
  product_patterns :: "pattern list"
  max_products :: int
  max_depth :: int

text \<open>
  The crawler state: the two sets and the deque of \<^verbatim>\<open>__init__\<close>. Two traces
  record effects of the loop: \<open>found_log\<close> the URLs of the messages
  \<^verbatim>\<open>Found product URL\<close> in the order they are logged, \<open>fetch_log\<close> the URLs passed
  to \<^verbatim>\<open>fetch_page\<close> in call order.
\<close>

record crawler =
  visited_urls :: "string set"
  product_urls :: "string set"
  queue :: "(string \<times> int) list"
  found_log :: "string list"
  fetch_log :: "string list"

text \<open>\<^verbatim>\<open>fetch_page\<close>: the text of a response with status 200, otherwise \<^verbatim>\<open>None\<close>.\<close>

definition fetch_page :: "world \<Rightarrow> string \<Rightarrow> string option" where
  "fetch_page w url =
     (case requests_get w url of
        None \<Rightarrow> None
      | Some (status_code, text) \<Rightarrow> if status_code = 200 then Some text else None)"

text \<open>\<^verbatim>\<open>extract_links\<close>: the loop over the \<^verbatim>\<open>href\<close>s; an exception anywhere ends
  the loop and the links collected so far are returned.\<close>

fun extract_loop :: "world \<Rightarrow> string \<Rightarrow> string list \<Rightarrow> string list \<Rightarrow> string list" where
  "extract_loop w base_url [] links = links"
| "extract_loop w base_url (href # hrefs) links =
     (if href \<noteq> [] \<and> take 11 href \<noteq> ''javascript:'' \<and> take 1 href \<noteq> ''#'' then
        (case urljoin w base_url href of
           None \<Rightarrow> links
         | Some absolute_url \<Rightarrow>
             (case canonicalize (lib w) absolute_url of
                None \<Rightarrow> links
              | Some cleaned \<Rightarrow>
                  if is_valid_url (lib w) cleaned \<and> is_same_domain (tldextract w) cleaned base_url
                  then extract_loop w base_url hrefs (links @ [cleaned])
                  else extract_loop w base_url hrefs links))
      else extract_loop w base_url hrefs links)"

definition extract_links :: "world \<Rightarrow> string \<Rightarrow> string \<Rightarrow> string list" where
  "extract_links w html base_url =
     (case soup_hrefs w html of
        None \<Rightarrow> []
      | Some hrefs \<Rightarrow> extract_loop w base_url hrefs [])"

text \<open>The loop \<^verbatim>\<open>for link in links\<close> at the end of the body of the crawl loop.\<close>

fun enqueue_links :: "string list \<Rightarrow> int \<Rightarrow> crawler \<Rightarrow> crawler" where
  "enqueue_links [] depth s = s"
| "enqueue_links (link # links) depth s =
     (if is_excluded link then enqueue_links links depth s
      else if link \<in> visited_urls s then enqueue_links links depth s
      else enqueue_links links depth (s\<lparr>queue := queue s @ [(link, depth + 1)]\<rparr>))"

text \<open>The condition of the \<^verbatim>\<open>while\<close> loop.\<close>

definition loop_cond :: "config \<Rightarrow> crawler \<Rightarrow> bool" where
  "loop_cond c s = (queue s \<noteq> [] \<and> int (card (product_urls s)) < max_products c)"

text \<open>One run of the loop body. The result says whether the body left the loop
  with \<^verbatim>\<open>break\<close> or went on to the next test of the loop condition.\<close>

datatype flow = Break | Continue

definition loop_body :: "world \<Rightarrow> config \<Rightarrow> crawler \<Rightarrow> flow \<times> crawler" where
  "loop_body w c s =
     (case queue s of
        [] \<Rightarrow> (Continue, s)
      | (url, depth) # rest \<Rightarrow>
          (let s1 = s\<lparr>queue := rest\<rparr> in
           if url \<in> visited_urls s1 then (Continue, s1)
           else
             let s2 = s1\<lparr>visited_urls := insert url (visited_urls s1)\<rparr>;
                 s3 = (if is_product (product_patterns c) url
                       then s2\<lparr>product_urls := insert url (product_urls s2),
                               found_log := found_log s2 @ [url]\<rparr>
                       else s2)
             in if is_product (product_patterns c) url
                   \<and> int (card (product_urls s3)) \<ge> max_products c
                then (Break, s3)
                else if depth \<ge> max_depth c then (Continue, s3)
                else
                  let s4 = s3\<lparr>fetch_log := fetch_log s3 @ [url]\<rparr> in
                  (case fetch_page w url of
                     None \<Rightarrow> (Continue, s4)
                   | Some html \<Rightarrow>
                       if html = [] then (Continue, s4)
                       else (Continue, enqueue_links (extract_links w html url) depth s4))))"

definition weight :: "config \<Rightarrow> string \<times> int \<Rightarrow> nat" where
  "weight c item = nat (max_depth c - snd item)"

function crawl_loop :: "world \<Rightarrow> config \<Rightarrow> crawler \<Rightarrow> crawler" where
  "crawl_loop w c s =
     (if loop_cond c s then
        (case loop_body w c s of
           (Break, s') \<Rightarrow> s'
         | (Continue, s') \<Rightarrow> crawl_loop w c s')
      else s)"
  by pat_completeness auto
termination
proof (relation "inv_image (mult {(a, b). a < b})
                   (\<lambda>(w, c, s). mset (map (weight c) (queue s)))", goal_cases)
  case 1
  show ?case by (intro wf_inv_image wf_mult wf_less)
next
  case (2 w c s x s')
  then have "queue s \<noteq> []" and s': "s' = snd (loop_body w c s)"
    by (auto simp: loop_cond_def dest: sym)
  then obtain url depth rest where q: "queue s = (url, depth) # rest"
    by (cases "queue s") auto
  have enq: "queue (enqueue_links links d t) =
               queue t @ map (\<lambda>l. (l, d + 1))
                 (filter (\<lambda>l. \<not> is_excluded l \<and> l \<notin> visited_urls t) links)"
    for links d t
    by (induction links d t rule: enqueue_links.induct) auto
  have "\<exists>new. queue s' = rest @ map (\<lambda>l. (l, depth + 1)) new
               \<and> (new \<noteq> [] \<longrightarrow> depth < max_depth c)"
  proof -
    have e: "\<exists>new. rest = rest @ map (\<lambda>l. (l, depth + 1)) new
               \<and> (new \<noteq> [] \<longrightarrow> depth < max_depth c)"
      by (rule exI [of _ "[]"]) simp
    show ?thesis
      using q e unfolding s'
      by (auto simp: loop_body_def Let_def enq split: option.splits)
  qed
  then obtain new where
    n: "queue s' = rest @ map (\<lambda>l. (l, depth + 1)) new" and
    d: "new \<noteq> [] \<longrightarrow> depth < max_depth c"
    by blast
  let ?I = "mset (map (weight c) rest)"
  let ?K = "mset (map (weight c) (map (\<lambda>l. (l, depth + 1)) new))"
  let ?J = "{#weight c (url, depth)#}"
  have "\<forall>k \<in> set_mset ?K. \<exists>j \<in> set_mset ?J. (k, j) \<in> {(a, b). a < b}"
    using d by (auto simp: weight_def)
  then have "(?I + ?K, ?I + ?J) \<in> mult {(a, b). a < b}"
    by (intro one_step_implies_mult) auto
  then have "(mset (map (weight c) (queue s')), mset (map (weight c) (queue s)))
               \<in> mult {(a, b). a < b}"
    by (simp add: n q)
  then show ?case by simp
qed

text \<open>\<^verbatim>\<open>crawl\<close>: the start URLs enter the queue at depth 0, then the loop runs.\<close>

definition crawl_init :: "config \<Rightarrow> crawler" where
  "crawl_init c =
     \<lparr>visited_urls = {}, product_urls = {},
      queue = map (\<lambda>url. (url, 0)) (start_urls c),
      found_log = [], fetch_log = []\<rparr>"

definition crawl :: "world \<Rightarrow> config \<Rightarrow> crawler" where
  "crawl w c = crawl_loop w c (crawl_init c)"

text \<open>\<^verbatim>\<open>_save_results\<close> writes \<^verbatim>\<open>list(self.product_urls)\<close>. The elements of
  that set were added one by one, each with its message \<^verbatim>\<open>Found product URL\<close>,
  so \<open>found_log\<close> lists them in the order of their addition.\<close>

definition save_results :: "world \<Rightarrow> crawler \<Rightarrow> string list" where
  "save_results w s = set_order w (found_log s)"

text \<open>The states of a crawl: the initial state and every state after a run of
  the loop body that the loop condition admitted.\<close>

inductive reach :: "world \<Rightarrow> config \<Rightarrow> crawler \<Rightarrow> bool" for w c where
  reach_init: "reach w c (crawl_init c)"
| reach_step: "reach w c s \<Longrightarrow> loop_cond c s \<Longrightarrow> reach w c (snd (loop_body w c s))"

text \<open>What every state of a crawl satisfies: the recorded products are the
  visited URLs that classify as products, both traces list each URL once, only
  visited URLs are fetched, and a URL that matches an exclude pattern is in
  the queue or visited only if it is a start URL.\<close>

definition crawl_inv :: "config \<Rightarrow> crawler \<Rightarrow> bool" where
  "crawl_inv c s =
     (finite (visited_urls s)
      \<and> product_urls s = {u \<in> visited_urls s. is_product (product_patterns c) u}
      \<and> set (found_log s) = product_urls s \<and> distinct (found_log s)
      \<and> set (fetch_log s) \<subseteq> visited_urls s \<and> distinct (fetch_log s)
      \<and> list_all (\<lambda>item. is_excluded (fst item) \<longrightarrow> fst item \<in> set (start_urls c)) (queue s)
      \<and> (\<forall>u \<in> visited_urls s. is_excluded u \<longrightarrow> u \<in> set (start_urls c)))"

section \<open>The spider and the item pipelines\<close>

text \<open>A \<^verbatim>\<open>ProductURL\<close> item. Its field \<^verbatim>\<open>discovery_time\<close> holds the wall clock and
  is left out.\<close>

record ProductURL =
  item_url :: string
  item_domain :: string
  item_found_on :: string

text \<open>The attributes of the spider that \<^verbatim>\<open>parse_links\<close> reads and writes.\<close>

record spider =
  site_specific_patterns :: "pattern list"
  spider_max_products :: int
  products_found :: int

text \<open>
  \<^verbatim>\<open>parse_links\<close>: the loop over the links of a response. A \<^verbatim>\<open>return\<close> at the
  product limit and an exception both end the generator; the items yielded so
  far stay.
\<close>

fun parse_loop ::
  "world \<Rightarrow> string \<Rightarrow> string \<Rightarrow> string list \<Rightarrow> spider \<Rightarrow> ProductURL list
     \<Rightarrow> ProductURL list \<times> spider" where
  "parse_loop w response_url dname [] sp out = (out, sp)"
| "parse_loop w response_url dname (link # links) sp out =
     (case urljoin w response_url link of
        None \<Rightarrow> (out, sp)
      | Some url \<Rightarrow>
          if \<not> is_valid_url (lib w) url then parse_loop w response_url dname links sp out
          else if \<not> is_same_domain (tldextract w) url response_url
          then parse_loop w response_url dname links sp out
          else
            (case canonicalize (lib w) url of
               None \<Rightarrow> (out, sp)
             | Some cleaned \<Rightarrow>
                 if spider_is_product_url (site_specific_patterns sp) cleaned then
                   (if spider_max_products sp \<noteq> 0
                       \<and> products_found sp \<ge> spider_max_products sp
                    then (out, sp)
                    else parse_loop w response_url dname links
                           (sp\<lparr>products_found := products_found sp + 1\<rparr>)
                           (out @ [\<lparr>item_url = cleaned, item_domain = dname,
                                    item_found_on = response_url\<rparr>]))
                 else parse_loop w response_url dname links sp out))"

definition parse_links ::
  "world \<Rightarrow> spider \<Rightarrow> string \<Rightarrow> string list \<Rightarrow> ProductURL list \<times> spider" where
  "parse_links w sp response_url links =
     (let dname = get_domain (tldextract w) response_url
      in if spider_max_products sp \<noteq> 0 \<and> products_found sp \<ge> spider_max_products sp
         then ([], sp)
         else parse_loop w response_url dname links sp [])"

text \<open>\<^verbatim>\<open>DuplicatesPipeline.process_item\<close>: \<open>None\<close> is the raised \<^verbatim>\<open>DropItem\<close>.\<close>

definition duplicates_process_item ::
  "string set \<Rightarrow> ProductURL \<Rightarrow> ProductURL option \<times> string set" where
  "duplicates_process_item urls_seen item =
     (if item_url item \<in> urls_seen then (None, urls_seen)
      else (Some item, insert (item_url item) urls_seen))"

text \<open>\<^verbatim>\<open>OutputPipeline.process_item\<close> on the dictionary \<^verbatim>\<open>items_per_domain\<close>.\<close>

definition output_process_item ::
  "(string \<rightharpoonup> ProductURL list) \<Rightarrow> ProductURL \<Rightarrow> (string \<rightharpoonup> ProductURL list)" where
  "output_process_item items_per_domain item =
     (case items_per_domain (item_domain item) of
        None \<Rightarrow> items_per_domain(item_domain item \<mapsto> [item])
      | Some items \<Rightarrow> items_per_domain(item_domain item \<mapsto> items @ [item]))"

text \<open>The settings order the pipelines: an item passes the duplicates filter
  (priority 300) and, if it is not dropped, the output pipeline (500).\<close>

fun process_items ::
  "ProductURL list \<Rightarrow> string set \<times> (string \<rightharpoonup> ProductURL list)
     \<Rightarrow> string set \<times> (string \<rightharpoonup> ProductURL list)" where
  "process_items [] st = st"
| "process_items (item # items) (urls_seen, items_per_domain) =
     (case duplicates_process_item urls_seen item of
        (None, seen') \<Rightarrow> process_items items (seen', items_per_domain)
      | (Some item', seen') \<Rightarrow>
          process_items items (seen', output_process_item items_per_domain item'))"

text \<open>\<^verbatim>\<open>close_spider\<close> writes \<^verbatim>\<open>[item['url'] for item in items]\<close> for a domain.\<close>

definition domain_urls :: "(string \<rightharpoonup> ProductURL list) \<Rightarrow> string \<Rightarrow> string list" where
  "domain_urls items_per_domain d =
     (case items_per_domain d of None \<Rightarrow> [] | Some items \<Rightarrow> map item_url items)"

text \<open>The items of a list that the duplicates filter lets through, in their
  order: the first item of each URL not seen before.\<close>

fun first_seen :: "string set \<Rightarrow> ProductURL list \<Rightarrow> ProductURL list" where
  "first_seen seen [] = []"
| "first_seen seen (item # items) =
     (if item_url item \<in> seen then first_seen seen items
      else item # first_seen (insert (item_url item) seen) items)"

text \<open>Stand-ins for the two libraries of the parser: the addresses \<^verbatim>\<open>::1\<close> and
  \<^verbatim>\<open>127.0.0.1\<close> are known, and normalization changes nothing.\<close>

definition small_stdlib :: stdlib where
  "small_stdlib =
     \<lparr>ip_address = (\<lambda>h. if h = ''::1'' then Some IPv6
                         else if h = ''127.0.0.1'' then Some IPv4 else None),
      nfkc = (\<lambda>n. n)\<rparr>"

text \<open>A host without public suffix.\<close>

definition local_world :: world where
  "local_world =
     \<lparr>requests_get = (\<lambda>u. None),
      soup_hrefs = (\<lambda>h. Some []),
      urljoin = (\<lambda>b h. Some (''http://localhost'' @ h)),
      tldextract = (\<lambda>u. \<lparr>subdomain = '''', domain = ''localhost'', suffix = ''''\<rparr>),
      lib = small_stdlib,
      set_order = sort\<rparr>"

definition local_spider :: spider where
  "local_spider = \<lparr>site_specific_patterns = [], spider_max_products = 1000, products_found = 0\<rparr>"

section \<open>A small shop, for concrete runs\<close>

text \<open>A site whose home page links twice to one product, once to a product
  below \<^verbatim>\<open>/login\<close> and once to a second product; no other page can be fetched.
  Its set order is the sorted one: CPython 3.11 started with hash seed 0
  lists the set of the two product URLs of the shop in that order, whichever
  of them was added first.\<close>

definition shop_world :: world where
  "shop_world =
     \<lparr>requests_get = (\<lambda>u. if u = ''https://www.a.com/'' then Some (200, ''home'') else None),
      soup_hrefs = (\<lambda>h. Some [''/p/1'', ''/p/1'', ''/login/p/3'', ''/p/2'']),
      urljoin = (\<lambda>b h. Some (''https://www.a.com'' @ h)),
      tldextract = (\<lambda>u. \<lparr>subdomain = ''www'', domain = ''a'', suffix = ''com''\<rparr>),
      lib = small_stdlib,
      set_order = sort\<rparr>"

definition shop_config :: "int \<Rightarrow> int \<Rightarrow> string list \<Rightarrow> config" where
  "shop_config mp md seeds =
     \<lparr>start_urls = seeds, product_patterns = [], max_products = mp, max_depth = md\<rparr>"

section \<open>Properties of the model\<close>

lemma enqueue_links_queue:
  "queue (enqueue_links links depth s) =
     queue s @ map (\<lambda>l. (l, depth + 1))
       (filter (\<lambda>l. \<not> is_excluded l \<and> l \<notin> visited_urls s) links)"
  and enqueue_links_visited: "visited_urls (enqueue_links links depth s) = visited_urls s"
  and enqueue_links_products: "product_urls (enqueue_links links depth s) = product_urls s"
  and enqueue_links_found: "found_log (enqueue_links links depth s) = found_log s"
  and enqueue_links_fetch: "fetch_log (enqueue_links links depth s) = fetch_log s"
  by (induction links depth s rule: enqueue_links.induct) auto

lemma crawl_inv_init: "crawl_inv c (crawl_init c)"
  by (auto simp: crawl_inv_def crawl_init_def list_all_iff)

lemma loop_body_inv:
  assumes "crawl_inv c s"
  shows "crawl_inv c (snd (loop_body w c s))"
proof (cases "queue s")
  case Nil
  then show ?thesis using assms by (simp add: loop_body_def)
next
  case (Cons item rest)
  obtain url depth where i: "item = (url, depth)" by (cases item)
  show ?thesis
    using assms Cons i
    unfolding crawl_inv_def loop_body_def Let_def
    by (auto simp: enqueue_links_queue enqueue_links_visited enqueue_links_products
          enqueue_links_found enqueue_links_fetch list_all_iff split: option.splits)
qed

lemma reach_inv: "reach w c s \<Longrightarrow> crawl_inv c s"
  by (induction rule: reach.induct) (auto intro: crawl_inv_init loop_body_inv)

lemma crawl_loop_reach: "reach w c s \<Longrightarrow> reach w c (crawl_loop w c s)"
proof (induction w c s rule: crawl_loop.induct)
  case (1 w c s)
  show ?case
  proof (cases "loop_cond c s")
    case False
    then show ?thesis using "1.prems" by simp
  next
    case True
    obtain f s' where b: "loop_body w c s = (f, s')" by (cases "loop_body w c s")
    have r: "reach w c s'" using reach_step [OF "1.prems" True] b by simp
    show ?thesis
    proof (cases f)
      case Break
      then show ?thesis using True b r by simp
    next
      case Continue
      then show ?thesis using True b r "1.IH" [OF True b [symmetric]] by simp
    qed
  qed
qed

lemma crawl_reach: "reach w c (crawl w c)"
  unfolding crawl_def by (rule crawl_loop_reach) (rule reach_init)







lemma any_match_iff: "any_match ps url \<longleftrightarrow> list_ex (\<lambda>p. re_search p url) ps"
  by (induction ps) auto

lemma any_match_append: "any_match (ps @ qs) url \<longleftrightarrow> any_match ps url \<or> any_match qs url"
  by (induction ps) auto

lemma colon_not_scheme_char: "CHR '':'' \<notin> set scheme_chars"
  by (simp add: scheme_chars_def ascii_letters_def ascii_lowercase_def ascii_uppercase_def)

lemma split_scheme_some:
  assumes "pre \<noteq> []" and "hd pre \<in> set ascii_letters"
    and "list_all (\<lambda>c. c \<in> set scheme_chars) pre"
  shows "split_scheme (pre @ CHR '':'' # r) = (map lower_char pre, r)"
proof -
  have n: "\<And>x. x \<in> set pre \<Longrightarrow> x \<noteq> CHR '':''"
    using assms(3) colon_not_scheme_char by (auto simp: list_all_iff)
  then have t: "takeWhile (\<lambda>c. c \<noteq> CHR '':'') (pre @ CHR '':'' # r) = pre"
    by (simp add: takeWhile_append2)
  show ?thesis
    unfolding split_scheme_def Let_def t using assms by simp
qed

lemma split_scheme_nonempty:
  assumes "fst (split_scheme s) \<noteq> []"
  shows "\<exists>pre. s = pre @ CHR '':'' # snd (split_scheme s) \<and> pre \<noteq> []
            \<and> hd pre \<in> set ascii_letters \<and> list_all (\<lambda>c. c \<in> set scheme_chars) pre"
proof -
  let ?pre = "takeWhile (\<lambda>c. c \<noteq> CHR '':'') s"
  have c: "CHR '':'' \<in> set s \<and> ?pre \<noteq> [] \<and> hd ?pre \<in> set ascii_letters
            \<and> list_all (\<lambda>c. c \<in> set scheme_chars) ?pre"
    using assms by (auto simp: split_scheme_def Let_def split: if_splits)
  then have r: "snd (split_scheme s) = drop (length ?pre + 1) s"
    by (simp add: split_scheme_def Let_def)
  from c have "dropWhile (\<lambda>c. c \<noteq> CHR '':'') s \<noteq> []" by simp
  then obtain t where t: "dropWhile (\<lambda>c. c \<noteq> CHR '':'') s = CHR '':'' # t"
    using hd_dropWhile [of "\<lambda>c. c \<noteq> CHR '':''" s]
    by (cases "dropWhile (\<lambda>c. c \<noteq> CHR '':'') s") auto
  have s: "s = ?pre @ CHR '':'' # t"
    using takeWhile_dropWhile_id [of "\<lambda>c. c \<noteq> CHR '':''" s] t by simp
  have "drop (length ?pre + 1) s = t"
  proof -
    have "drop (length ?pre + 1) (?pre @ CHR '':'' # t) = t" by simp
    then show ?thesis using s by simp
  qed
  with r s c show ?thesis by auto
qed

lemma is_valid_url_parts:
  "is_valid_url L u \<longleftrightarrow>
     (fst (split_scheme (sanitize u)) \<noteq> []
      \<and> take 2 (snd (split_scheme (sanitize u))) = ''//''
      \<and> fst (splitnetloc (snd (split_scheme (sanitize u)))) \<noteq> []
      \<and> \<not> netloc_raises L (fst (splitnetloc (snd (split_scheme (sanitize u))))))"
proof (cases "take 2 (snd (split_scheme (sanitize u))) = ''//''")
  case True
  then show ?thesis
    by (simp add: is_valid_url_def urlparse_def urlsplit_def Let_def split_beta)
next
  case False
  have "\<not> netloc_raises L []"
    by (simp add: netloc_raises_def bad_brackets_def checknetloc_raises_def)
  with False show ?thesis
    by (simp add: is_valid_url_def urlparse_def urlsplit_def Let_def split_beta)
qed

lemma output_process_item_urls:
  "domain_urls (output_process_item m item) d =
     (if item_domain item = d then domain_urls m d @ [item_url item] else domain_urls m d)"
  by (auto simp: output_process_item_def domain_urls_def split: option.splits)

lemma process_items_urls:
  "domain_urls (snd (process_items items (seen, m))) d =
     domain_urls m d @ map item_url (filter (\<lambda>i. item_domain i = d) (first_seen seen items))"
proof (induction items arbitrary: seen m)
  case Nil
  then show ?case by simp
next
  case (Cons item items)
  show ?case
  proof (cases "item_url item \<in> seen")
    case True
    then show ?thesis using Cons [of seen m] by (simp add: duplicates_process_item_def)
  next
    case False
    then show ?thesis
      using Cons [of "insert (item_url item) seen" "output_process_item m item"]
      by (simp add: duplicates_process_item_def output_process_item_urls)
  qed
qed

lemma first_seen_distinct:
  "distinct (map item_url (first_seen seen items))
   \<and> set (map item_url (first_seen seen items)) \<inter> seen = {}"
proof (induction items arbitrary: seen)
  case Nil
  then show ?case by simp
next
  case (Cons item items)
  from Cons [of seen] Cons [of "insert (item_url item) seen"]
  show ?case by auto
qed


section \<open>The claims\<close>

text \<open>
  Claim C1. As stated the claim fails: the crawler marks a URL visited when it
  pops it, not when it enqueues it. After the first run of the loop body on
  the shop, whose home page links twice to the first product, the queue holds
  that product twice and the product is not in the visited set.
\<close>

theorem C1_enqueue_counterexample:
  "queue (snd (loop_body shop_world (shop_config 10 5 [''https://www.a.com/''])
                 (crawl_init (shop_config 10 5 [''https://www.a.com/'']))))
     = [(''https://www.a.com/p/1'', 1), (''https://www.a.com/p/1'', 1), (''https://www.a.com/p/2'', 1)]
   \<and> ''https://www.a.com/p/1''
        \<notin> visited_urls (snd (loop_body shop_world (shop_config 10 5 [''https://www.a.com/''])
                 (crawl_init (shop_config 10 5 [''https://www.a.com/'']))))"
  by code_simp

text \<open>
  Claim C1, amended. Enqueueing leaves the visited set unchanged and appends
  every link that is neither excluded nor visited, a repeated link as often
  as it occurs. A popped URL that is already visited is dropped and nothing
  else changes; a popped URL that is not visited enters the visited set. In
  every state of a crawl no URL was fetched twice and none was recorded twice
  as a product, and every fetched URL is visited.
\<close>

theorem C1_visited_at_pop:
  "visited_urls (enqueue_links links depth s) = visited_urls s
   \<and> queue (enqueue_links links depth s) =
       queue s @ map (\<lambda>l. (l, depth + 1))
                   (filter (\<lambda>l. \<not> is_excluded l \<and> l \<notin> visited_urls s) links)
   \<and> (queue s = (url, d) # rest \<and> url \<in> visited_urls s
        \<longrightarrow> loop_body w c s = (Continue, s\<lparr>queue := rest\<rparr>))
   \<and> (queue s = (url, d) # rest \<and> url \<notin> visited_urls s
        \<longrightarrow> visited_urls (snd (loop_body w c s)) = insert url (visited_urls s))
   \<and> (reach w c s \<longrightarrow> distinct (fetch_log s) \<and> distinct (found_log s)
                        \<and> set (fetch_log s) \<subseteq> visited_urls s)"
proof (intro conjI impI)
  show "visited_urls (enqueue_links links depth s) = visited_urls s"
    by (rule enqueue_links_visited)
  show "queue (enqueue_links links depth s) =
       queue s @ map (\<lambda>l. (l, depth + 1))
                   (filter (\<lambda>l. \<not> is_excluded l \<and> l \<notin> visited_urls s) links)"
    by (rule enqueue_links_queue)
next
  assume "queue s = (url, d) # rest \<and> url \<in> visited_urls s"
  then show "loop_body w c s = (Continue, s\<lparr>queue := rest\<rparr>)"
    by (simp add: loop_body_def)
next
  assume "queue s = (url, d) # rest \<and> url \<notin> visited_urls s"
  then show "visited_urls (snd (loop_body w c s)) = insert url (visited_urls s)"
    by (auto simp: loop_body_def Let_def enqueue_links_visited split: option.splits)
next
  assume "reach w c s"
  then have i: "crawl_inv c s" by (rule reach_inv)
  from i show "distinct (fetch_log s)" by (simp add: crawl_inv_def)
  from i show "distinct (found_log s)" by (simp add: crawl_inv_def)
  from i show "set (fetch_log s) \<subseteq> visited_urls s" by (simp add: crawl_inv_def)
qed

theorem C1_visited_at_pop_witness:
  "loop_body shop_world (shop_config 10 5 [])
     \<lparr>visited_urls = {''https://www.a.com/p/1''}, product_urls = {''https://www.a.com/p/1''},
      queue = [(''https://www.a.com/p/1'', 1), (''https://www.a.com/p/2'', 1)],
      found_log = [''https://www.a.com/p/1''], fetch_log = []\<rparr>
   = (Continue,
      \<lparr>visited_urls = {''https://www.a.com/p/1''}, product_urls = {''https://www.a.com/p/1''},
       queue = [(''https://www.a.com/p/2'', 1)],
       found_log = [''https://www.a.com/p/1''], fetch_log = []\<rparr>)
   \<and> visited_urls (snd (loop_body shop_world (shop_config 10 5 [''https://www.a.com/''])
                           (crawl_init (shop_config 10 5 [''https://www.a.com/'']))))
       = {''https://www.a.com/''}
   \<and> distinct (fetch_log (crawl shop_world (shop_config 10 5 [''https://www.a.com/''])))"
proof -
  let ?s = "\<lparr>visited_urls = {''https://www.a.com/p/1''}, product_urls = {''https://www.a.com/p/1''},
      queue = [(''https://www.a.com/p/1'', 1), (''https://www.a.com/p/2'', 1)],
      found_log = [''https://www.a.com/p/1''], fetch_log = []\<rparr>"
  let ?c = "shop_config 10 5 [''https://www.a.com/'']"
  have i: "queue (crawl_init ?c) = (''https://www.a.com/'', 0) # []
           \<and> ''https://www.a.com/'' \<notin> visited_urls (crawl_init ?c)"
    by (simp add: crawl_init_def shop_config_def)
  from C1_visited_at_pop [of "[]" 0 "crawl_init ?c" "''https://www.a.com/''" 0 "[]" shop_world ?c] i
  have v: "visited_urls (snd (loop_body shop_world ?c (crawl_init ?c)))
             = insert ''https://www.a.com/'' (visited_urls (crawl_init ?c))"
    by blast
  have v0: "visited_urls (crawl_init ?c) = {}" by (simp add: crawl_init_def)
  have q: "queue ?s = (''https://www.a.com/p/1'', 1) # [(''https://www.a.com/p/2'', 1)]
           \<and> ''https://www.a.com/p/1'' \<in> visited_urls ?s" by simp
  have r: "reach shop_world ?c (crawl shop_world ?c)" by (rule crawl_reach)
  from C1_visited_at_pop [of "[]" 0 ?s "''https://www.a.com/p/1''" 1 "[(''https://www.a.com/p/2'', 1)]"
                             shop_world "shop_config 10 5 []"] q
  have a: "loop_body shop_world (shop_config 10 5 []) ?s
             = (Continue, ?s\<lparr>queue := [(''https://www.a.com/p/2'', 1)]\<rparr>)"
    by blast
  from C1_visited_at_pop [of "[]" 0 "crawl shop_world ?c" "[]" 0 "[]" shop_world ?c] r
  have b: "distinct (fetch_log (crawl shop_world ?c))" by blast
  from a b v v0 show ?thesis by simp
qed



text \<open>
  Claim C3. In a state of a crawl in which the loop runs and the item at the
  head of the queue has a depth of at least \<open>max_depth\<close>, the loop body calls
  no fetch and enqueues nothing: the queue is left with the other items.
  The URL of the item is visited afterwards, it is a recorded product exactly
  if it classifies as one, and no other product is recorded by that run.
\<close>

theorem C3_depth_cutoff:
  assumes "reach w c s" and "loop_cond c s"
    and "queue s = (url, depth) # rest" and "max_depth c \<le> depth"
  shows "fetch_log (snd (loop_body w c s)) = fetch_log s
       \<and> queue (snd (loop_body w c s)) = rest
       \<and> url \<in> visited_urls (snd (loop_body w c s))
       \<and> (url \<in> product_urls (snd (loop_body w c s)) \<longleftrightarrow> is_product (product_patterns c) url)
       \<and> product_urls (snd (loop_body w c s)) \<subseteq> insert url (product_urls s)"
proof -
  have inv: "crawl_inv c s" using assms(1) by (rule reach_inv)
  have inv': "crawl_inv c (snd (loop_body w c s))" using inv by (rule loop_body_inv)
  have a: "fetch_log (snd (loop_body w c s)) = fetch_log s"
    using assms(3,4) by (simp add: loop_body_def Let_def)
  have b: "queue (snd (loop_body w c s)) = rest"
    using assms(3,4) by (simp add: loop_body_def Let_def)
  have v: "url \<in> visited_urls (snd (loop_body w c s))"
    using assms(3,4) by (simp add: loop_body_def Let_def)
  have p: "url \<in> product_urls (snd (loop_body w c s)) \<longleftrightarrow> is_product (product_patterns c) url"
    using inv' v by (auto simp: crawl_inv_def)
  have q: "product_urls (snd (loop_body w c s)) \<subseteq> insert url (product_urls s)"
    using assms(3,4) by (auto simp: loop_body_def Let_def split: if_splits)
  from a b v p q show ?thesis by blast
qed

theorem C3_depth_cutoff_witness:
  "fetch_log (snd (loop_body shop_world (shop_config 10 0 [''https://www.a.com/p/1''])
                    (crawl_init (shop_config 10 0 [''https://www.a.com/p/1''])))) = []
   \<and> queue (snd (loop_body shop_world (shop_config 10 0 [''https://www.a.com/p/1''])
                    (crawl_init (shop_config 10 0 [''https://www.a.com/p/1''])))) = []
   \<and> ''https://www.a.com/p/1''
        \<in> product_urls (snd (loop_body shop_world (shop_config 10 0 [''https://www.a.com/p/1''])
                    (crawl_init (shop_config 10 0 [''https://www.a.com/p/1'']))))"
proof -
  let ?c = "shop_config 10 0 [''https://www.a.com/p/1'']"
  have r: "reach shop_world ?c (crawl_init ?c)" by (rule reach_init)
  have l: "loop_cond ?c (crawl_init ?c)" by code_simp
  have q: "queue (crawl_init ?c) = (''https://www.a.com/p/1'', 0) # []"
    by (simp add: crawl_init_def shop_config_def)
  have d: "max_depth ?c \<le> 0" by (simp add: shop_config_def)
  have p: "is_product (product_patterns ?c) ''https://www.a.com/p/1''" by code_simp
  have f: "fetch_log (crawl_init ?c) = []" by (simp add: crawl_init_def)
  from C3_depth_cutoff [OF r l q d] p f show ?thesis by simp
qed

text \<open>
  Claim C4. As stated the claim fails for seed URLs: the start URLs enter the
  queue without the exclusion check. A start URL below \<^verbatim>\<open>/login\<close> that also
  matches the generic pattern \<^verbatim>\<open>/p/\<close> is recorded as a product.
\<close>

theorem C4_seed_excluded_counterexample:
  "is_excluded ''https://www.a.com/login/p/3''
   \<and> ''https://www.a.com/login/p/3''
        \<in> product_urls (crawl shop_world (shop_config 10 5 [''https://www.a.com/login/p/3'']))"
  by code_simp

text \<open>
  Claim C4, amended. A link that matches an exclude pattern is never added to
  the queue by the loop over the links of a page; and in every state of a
  crawl a URL that matches an exclude pattern and is not one of the start
  URLs is not a recorded product.
\<close>

theorem C4_excluded_links:
  "(is_excluded (fst item) \<and> item \<notin> set (queue s)
      \<longrightarrow> item \<notin> set (queue (enqueue_links links depth s)))
   \<and> (reach w c s' \<and> is_excluded u \<and> u \<notin> set (start_urls c) \<longrightarrow> u \<notin> product_urls s')"
proof (intro conjI impI)
  assume "is_excluded (fst item) \<and> item \<notin> set (queue s)"
  then show "item \<notin> set (queue (enqueue_links links depth s))"
    by (auto simp: enqueue_links_queue)
next
  assume a: "reach w c s' \<and> is_excluded u \<and> u \<notin> set (start_urls c)"
  then have "crawl_inv c s'" using reach_inv by blast
  then show "u \<notin> product_urls s'" using a by (auto simp: crawl_inv_def)
qed

theorem C4_excluded_links_witness:
  "''https://www.a.com/login/p/3''
     \<notin> product_urls (crawl shop_world (shop_config 10 5 [''https://www.a.com/'']))
   \<and> (''https://www.a.com/login/p/3'', 1)
     \<notin> set (queue (enqueue_links [''https://www.a.com/login/p/3''] 0
                      (crawl_init (shop_config 10 5 [''https://www.a.com/'']))))"
proof -
  let ?c = "shop_config 10 5 [''https://www.a.com/'']"
  let ?u = "''https://www.a.com/login/p/3''"
  have r: "reach shop_world ?c (crawl shop_world ?c)" by (rule crawl_reach)
  have e: "is_excluded ?u" by code_simp
  have n: "?u \<notin> set (start_urls ?c)" by (simp add: shop_config_def)
  have q: "(?u, 1) \<notin> set (queue (crawl_init ?c))" by (simp add: crawl_init_def shop_config_def)
  from C4_excluded_links [where item = "(?u, 1)" and links = "[?u]" and depth = 0
        and s = "crawl_init ?c" and w = shop_world and c = ?c
        and s' = "crawl shop_world ?c" and u = ?u]
    r e n q
  show ?thesis by auto
qed

text \<open>
  Claim C5. The code breaks the claim where a noise parameter is the last
  parameter of the query: the substitution deletes the parameter and leaves
  the separator before it, so a URL and the same URL with a trailing
  \<^verbatim>\<open>utm_source\<close> parameter have different canonical forms. A noise parameter
  in front of another parameter is deleted together with its separator.
\<close>

theorem C5_trailing_separator:
  "canonicalize L ''https://a.com/p?id=7&utm_source=x'' = Some ''https://a.com/p?id=7&''
   \<and> canonicalize L ''https://a.com/p?id=7'' = Some ''https://a.com/p?id=7''
   \<and> canonicalize L ''https://a.com/p?utm_source=x&id=7'' = Some ''https://a.com/p?id=7''
   \<and> canonicalize L ''https://a.com/p?id=7&utm_source=x'' \<noteq> canonicalize L ''https://a.com/p?id=7''"
  by code_simp

text \<open>
  Claim C6. As stated the claim fails: the validation has no list of allowed
  schemes. A URL with the scheme \<^verbatim>\<open>ftp\<close> and a host is valid.
\<close>

theorem C6_valid_scheme_counterexample:
  "is_valid_url small_stdlib ''ftp://example.com/file.txt''"
  by code_simp

text \<open>
  Claim C6, amended. A URL is valid exactly if, after the parser's removal of
  leading control characters and spaces and of tab, carriage return and line
  feed, it is a scheme, \<^verbatim>\<open>://\<close>, a host and a rest, where the scheme is not
  empty, starts with a letter and consists of scheme characters, the host is
  not empty, holds none of \<^verbatim>\<open>/ ? #\<close> and passes the parser's checks of the
  network location (matched square brackets, an IPv6 or IPvFuture literal
  between them, no delimiter gained under NFKC normalization), and the rest
  is empty or starts with one of \<^verbatim>\<open>/ ? #\<close>. So every URL without a scheme or
  without a host is rejected, and the scheme is not restricted.
\<close>

theorem C6_valid_url:
  "is_valid_url L u \<longleftrightarrow>
     (\<exists>sch host rest.
        sanitize u = sch @ ''://'' @ host @ rest
        \<and> sch \<noteq> [] \<and> hd sch \<in> set ascii_letters
        \<and> list_all (\<lambda>c. c \<in> set scheme_chars) sch
        \<and> host \<noteq> [] \<and> list_all (\<lambda>c. \<not> is_delim c) host \<and> \<not> netloc_raises L host
        \<and> (rest = [] \<or> is_delim (hd rest)))"
  (is "?L \<longleftrightarrow> ?R")
proof
  assume ?L
  then have p: "fst (split_scheme (sanitize u)) \<noteq> []"
    and sl: "take 2 (snd (split_scheme (sanitize u))) = ''//''"
    and nl: "fst (splitnetloc (snd (split_scheme (sanitize u)))) \<noteq> []"
    and bb: "\<not> netloc_raises L (fst (splitnetloc (snd (split_scheme (sanitize u)))))"
    by (simp_all add: is_valid_url_parts)
  let ?url1 = "snd (split_scheme (sanitize u))"
  from split_scheme_nonempty [OF p] obtain pre where
    pre: "sanitize u = pre @ CHR '':'' # ?url1" "pre \<noteq> []" "hd pre \<in> set ascii_letters"
         "list_all (\<lambda>c. c \<in> set scheme_chars) pre" by blast
  let ?r = "drop 2 ?url1"
  let ?host = "takeWhile (\<lambda>c. \<not> is_delim c) ?r"
  let ?rest = "dropWhile (\<lambda>c. \<not> is_delim c) ?r"
  have u1: "?url1 = ''//'' @ ?r"
    using sl append_take_drop_id [of 2 ?url1] by simp
  have hr: "?r = ?host @ ?rest" by simp
  have h: "?host \<noteq> []" "\<not> netloc_raises L ?host"
    using nl bb by (simp_all add: splitnetloc_def)
  have d: "?rest = [] \<or> is_delim (hd ?rest)"
    using hd_dropWhile [of "\<lambda>c. \<not> is_delim c" ?r] by auto
  have la: "list_all (\<lambda>c. \<not> is_delim c) ?host"
    by (auto simp: list_all_iff dest: set_takeWhileD)
  have "sanitize u = pre @ ''://'' @ ?host @ ?rest"
    using pre(1) u1 hr by (metis append_Cons append_Nil)
  with pre h d la show ?R by blast
next
  assume ?R
  then obtain sch host rest where
    s: "sanitize u = sch @ ''://'' @ host @ rest" and
    sch: "sch \<noteq> []" "hd sch \<in> set ascii_letters" "list_all (\<lambda>c. c \<in> set scheme_chars) sch" and
    host: "host \<noteq> []" "list_all (\<lambda>c. \<not> is_delim c) host" "\<not> netloc_raises L host" and
    rest: "rest = [] \<or> is_delim (hd rest)"
    by blast
  have "sanitize u = sch @ CHR '':'' # (''//'' @ host @ rest)" using s by simp
  then have ss: "split_scheme (sanitize u) = (map lower_char sch, ''//'' @ host @ rest)"
    using split_scheme_some [OF sch] by simp
  have tw: "takeWhile (\<lambda>c. \<not> is_delim c) (host @ rest) = host"
  proof (cases rest)
    case Nil
    then show ?thesis using host(2) by (simp add: list_all_iff)
  next
    case (Cons x xs)
    then have "is_delim x" using rest by simp
    then show ?thesis using host(2) Cons by (simp add: list_all_iff takeWhile_append2)
  qed
  have "fst (splitnetloc (''//'' @ host @ rest)) = host"
    using tw by (simp add: splitnetloc_def)
  with ss sch(1) host show ?L by (simp add: is_valid_url_parts)
qed

theorem C6_valid_url_witness:
  "is_valid_url small_stdlib ''https://shop.example.com/p/1?x=1''
   \<and> is_valid_url small_stdlib ''http://[::1]:8080/p''
   \<and> \<not> is_valid_url small_stdlib ''http://[x]/p''
   \<and> \<not> is_valid_url small_stdlib ''http://[127.0.0.1]/p''
   \<and> \<not> is_valid_url small_stdlib ''javascript:void(0)''
   \<and> \<not> is_valid_url small_stdlib ''mailto:a@b.com''
   \<and> \<not> is_valid_url small_stdlib ''/products/1''
   \<and> \<not> is_valid_url small_stdlib ''//a.com/p''"
proof -
  have a: "is_valid_url small_stdlib ''https://shop.example.com/p/1?x=1''"
  proof -
    have "sanitize ''https://shop.example.com/p/1?x=1''
            = ''https'' @ ''://'' @ ''shop.example.com'' @ ''/p/1?x=1''
          \<and> ''https'' \<noteq> [] \<and> hd ''https'' \<in> set ascii_letters
          \<and> list_all (\<lambda>c. c \<in> set scheme_chars) ''https''
          \<and> ''shop.example.com'' \<noteq> [] \<and> list_all (\<lambda>c. \<not> is_delim c) ''shop.example.com''
          \<and> \<not> netloc_raises small_stdlib ''shop.example.com''
          \<and> (''/p/1?x=1'' = [] \<or> is_delim (hd ''/p/1?x=1''))"
      by code_simp
    then show ?thesis unfolding C6_valid_url by blast
  qed
  have b: "is_valid_url small_stdlib ''http://[::1]:8080/p''
           \<and> \<not> is_valid_url small_stdlib ''http://[x]/p''
           \<and> \<not> is_valid_url small_stdlib ''http://[127.0.0.1]/p''
           \<and> \<not> is_valid_url small_stdlib ''javascript:void(0)''
           \<and> \<not> is_valid_url small_stdlib ''mailto:a@b.com''
           \<and> \<not> is_valid_url small_stdlib ''/products/1''
           \<and> \<not> is_valid_url small_stdlib ''//a.com/p''"
    by code_simp
  from a b show ?thesis by blast
qed

text \<open>
  Claim C7. As stated the claim fails for the classification of the crawler:
  the generic patterns are consulted although the domain supplies a pattern
  of its own. With the one domain pattern \<^verbatim>\<open>/dp/\<close>, which does not match, the URL
  is still classified as a product; the helper with an explicit pattern list
  rejects it.
\<close>

theorem C7_fallback_counterexample:
  "is_product [lits ''/dp/''] ''https://a.com/p/1''
   \<and> \<not> any_match [lits ''/dp/''] ''https://a.com/p/1''
   \<and> \<not> is_product_url ''https://a.com/p/1'' (Some [lits ''/dp/''])"
  by code_simp

text \<open>
  Claim C7, amended. The classification of the crawler tries the
  domain-specific patterns first and then, whenever none of them matches, the
  built-in generic patterns: it is true exactly if a pattern of either list
  matches. The helper \<^verbatim>\<open>is_product_url\<close> takes the built-in list only when it is
  given no pattern list or an empty one. The spider tries the generic
  patterns and then the site-specific ones. Each list is searched for some
  pattern that matches the URL.
\<close>

theorem C7_classification:
  "is_product pps url = (any_match pps url \<or> any_match default_patterns url)
   \<and> is_product_url url (Some ps) = any_match (if ps = [] then default_patterns else ps) url
   \<and> is_product_url url None = any_match default_patterns url
   \<and> spider_is_product_url ps url = (any_match default_patterns url \<or> any_match ps url)
   \<and> (any_match ps url \<longleftrightarrow> list_ex (\<lambda>p. re_search p url) ps)"
  by (simp add: is_product_def is_product_url_def spider_is_product_url_def
        any_match_append any_match_iff)

theorem C7_classification_witness:
  "is_product [lits ''/dp/''] ''https://a.com/dp/1''
   \<and> is_product [lits ''/dp/''] ''https://a.com/products/123''
   \<and> \<not> is_product [lits ''/dp/''] ''https://a.com/category/shoes''"
proof -
  have a: "any_match [lits ''/dp/''] ''https://a.com/dp/1''" by code_simp
  have b: "any_match default_patterns ''https://a.com/products/123''" by code_simp
  have c: "\<not> any_match [lits ''/dp/''] ''https://a.com/category/shoes''
           \<and> \<not> any_match default_patterns ''https://a.com/category/shoes''" by code_simp
  from C7_classification [where pps = "[lits ''/dp/'']" and url = "''https://a.com/dp/1''"]
       C7_classification [where pps = "[lits ''/dp/'']" and url = "''https://a.com/products/123''"]
       C7_classification [where pps = "[lits ''/dp/'']" and url = "''https://a.com/category/shoes''"]
       a b c
  show ?thesis by blast
qed

text \<open>
  Claim C8. As stated the claim fails for the crawler: its result is a set,
  and the list written at the end is the enumeration of that set by the
  interpreter. In the shop world, whose set order is that of hash seed 0, the
  crawl that records the second product before the first writes the first
  product before the second.
\<close>

theorem C8_discovery_order_counterexample:
  "found_log (crawl shop_world (shop_config 10 0 [''https://www.a.com/p/2'', ''https://www.a.com/p/1'']))
     = [''https://www.a.com/p/2'', ''https://www.a.com/p/1'']
   \<and> save_results shop_world
         (crawl shop_world (shop_config 10 0 [''https://www.a.com/p/2'', ''https://www.a.com/p/1'']))
     = [''https://www.a.com/p/1'', ''https://www.a.com/p/2'']"
  by code_simp

text \<open>
  Claim C8, amended. The enumeration of a set lists the elements that were
  added, each once, in an order of its own. In every state of a crawl for
  which the set order does so, the list that the crawler would write has no
  repeated URL and holds exactly the recorded product URLs, as many as were
  discovered. The item pipelines of the spider keep discovery order: the URLs
  written for a domain are, in the order of arrival, those of the items of
  that domain that the duplicates filter lets through, and no URL is repeated.
\<close>

theorem C8_result_sequences:
  "(reach w c s \<and> mset (set_order w (found_log s)) = mset (found_log s) \<longrightarrow>
      distinct (save_results w s) \<and> set (save_results w s) = product_urls s
      \<and> set (save_results w s) = set (found_log s)
      \<and> length (save_results w s) = length (found_log s) \<and> distinct (found_log s))
   \<and> domain_urls (snd (process_items items ({}, Map.empty))) d
       = map item_url (filter (\<lambda>i. item_domain i = d) (first_seen {} items))
   \<and> distinct (domain_urls (snd (process_items items ({}, Map.empty))) d)"
proof (intro conjI impI)
  assume a: "reach w c s \<and> mset (set_order w (found_log s)) = mset (found_log s)"
  then have i: "crawl_inv c s" using reach_inv by blast
  from i have log: "set (found_log s) = product_urls s" "distinct (found_log s)"
    by (simp_all add: crawl_inv_def)
  from a have m: "mset (save_results w s) = mset (found_log s)"
    by (simp add: save_results_def)
  show "distinct (save_results w s)"
    using m log(2) by (metis mset_eq_imp_distinct_iff)
  show "set (save_results w s) = set (found_log s)"
    using m by (rule mset_eq_setD)
  then show "set (save_results w s) = product_urls s" using log(1) by simp
  show "length (save_results w s) = length (found_log s)"
    using m by (rule mset_eq_length)
  show "distinct (found_log s)" by (rule log(2))
next
  have e: "domain_urls Map.empty d = []" by (simp add: domain_urls_def)
  show u: "domain_urls (snd (process_items items ({}, Map.empty))) d
       = map item_url (filter (\<lambda>i. item_domain i = d) (first_seen {} items))"
    by (simp add: process_items_urls e)
  have "distinct (map item_url (first_seen {} items))"
    using first_seen_distinct [of "{}" items] by simp
  then have "distinct (map item_url (filter (\<lambda>i. item_domain i = d) (first_seen {} items)))"
    by (rule distinct_map_filter)
  then show "distinct (domain_urls (snd (process_items items ({}, Map.empty))) d)"
    using u by simp
qed

theorem C8_result_sequences_witness:
  "set (save_results shop_world (crawl shop_world (shop_config 10 5 [''https://www.a.com/''])))
     = {''https://www.a.com/p/1'', ''https://www.a.com/p/2''}
   \<and> length (save_results shop_world
                (crawl shop_world (shop_config 10 5 [''https://www.a.com/'']))) = 2
   \<and> domain_urls (snd (process_items
        (fst (parse_links local_world local_spider ''http://localhost/shop''
                [''/p/2'', ''/about'', ''/p/2#x'', ''/p/1?utm_source=a'']))
        ({}, Map.empty))) ''localhost.''
      = [''http://localhost/p/2'', ''http://localhost/p/1'']"
proof -
  let ?c = "shop_config 10 5 [''https://www.a.com/'']"
  let ?items = "fst (parse_links local_world local_spider ''http://localhost/shop''
                [''/p/2'', ''/about'', ''/p/2#x'', ''/p/1?utm_source=a''])"
  have r: "reach shop_world ?c (crawl shop_world ?c)" by (rule crawl_reach)
  have o: "mset (set_order shop_world (found_log (crawl shop_world ?c)))
             = mset (found_log (crawl shop_world ?c))"
    by (simp add: shop_world_def)
  have f: "found_log (crawl shop_world ?c) = [''https://www.a.com/p/1'', ''https://www.a.com/p/2'']"
    by code_simp
  have p: "map item_url (filter (\<lambda>i. item_domain i = ''localhost.'') (first_seen {} ?items))
             = [''http://localhost/p/2'', ''http://localhost/p/1'']"
    by code_simp
  from C8_result_sequences [of shop_world ?c "crawl shop_world ?c" ?items "''localhost.''"] r o f p
  show ?thesis by auto
qed

text \<open>
  Claim C9. The code breaks the claim: deleting a match of the noise pattern
  can bring together the text of a new match, which only a second application
  deletes. The URL below is valid, its canonical form still has a noise
  parameter, and the canonical form of that is a third string.
\<close>

theorem C9_not_idempotent:
  "is_valid_url L ''https://a.com/p?utm_utm_a=1&a=b''
   \<and> canonicalize L ''https://a.com/p?utm_utm_a=1&a=b'' = Some ''https://a.com/p?utm_a=b''
   \<and> canonicalize L ''https://a.com/p?utm_a=b'' = Some ''https://a.com/p''"
  by code_simp



end
